theory Spec2Isabelle
  imports Main "HOL-Library.Word" "HOL-Library.Monad_Syntax" "HOL-Library.Sublist"
begin

section \<open>The PCM to WAV encoder (utils/audio: \<open>pcmToWav\<close>, \<open>writeString\<close>)\<close>

text \<open>
  A \<open>Uint8Array\<close> and the \<open>ArrayBuffer\<close> behind a \<open>DataView\<close> are lists of bytes.
  The \<open>number\<close> arguments \<open>sampleRate\<close> and \<open>numChannels\<close> are modelled as
  integers (the values a sample rate and a channel count take); the arithmetic of the
  source on them is exact on integers below \<open>2 ^ 53\<close>.

  Every \<open>DataView\<close> setter throws a \<open>RangeError\<close> when the write does not fit the
  buffer, and converts its value with \<open>ToUint8\<close>/\<open>ToUint16\<close>/\<open>ToUint32\<close>, that is modulo
  \<open>2 ^ 8\<close>, \<open>2 ^ 16\<close>, \<open>2 ^ 32\<close>. The throw is the result \<open>None\<close>; the conversion is
  \<open>word_of_int\<close> on each byte of the little-endian layout (the source passes
  \<open>littleEndian = true\<close> everywhere).
\<close>

type_synonym u8 = "8 word"

definition setUint8 :: "u8 list \<Rightarrow> nat \<Rightarrow> int \<Rightarrow> u8 list option" where
  "setUint8 view byteOffset v =
     (if byteOffset + 1 \<le> length view
      then Some (view[byteOffset := word_of_int v])
      else None)"

definition setUint16 :: "u8 list \<Rightarrow> nat \<Rightarrow> int \<Rightarrow> u8 list option" where
  "setUint16 view byteOffset v =
     (if byteOffset + 2 \<le> length view
      then Some (view[byteOffset := word_of_int v,
                      byteOffset + 1 := word_of_int (v div 256)])
      else None)"

definition setUint32 :: "u8 list \<Rightarrow> nat \<Rightarrow> int \<Rightarrow> u8 list option" where
  "setUint32 view byteOffset v =
     (if byteOffset + 4 \<le> length view
      then Some (view[byteOffset := word_of_int v,
                      byteOffset + 1 := word_of_int (v div 256),
                      byteOffset + 2 := word_of_int (v div 65536),
                      byteOffset + 3 := word_of_int (v div 16777216)])
      else None)"

text \<open>
  \<^verbatim>\<open>function writeString(view, offset, string) {
    for (let i = 0; i < string.length; i++)
      view.setUint8(offset + i, string.charCodeAt(i)); }\<close>
\<close>

fun writeString :: "u8 list \<Rightarrow> nat \<Rightarrow> string \<Rightarrow> u8 list option" where
  "writeString view offset [] = Some view"
| "writeString view offset (c # cs) =
     do { view' \<leftarrow> setUint8 view offset (of_char c);
          writeString view' (offset + 1) cs }"

text \<open>
  \<open>new Uint8Array(buffer, 44).set(pcmData)\<close>: the typed array is a window on the buffer
  from \<open>byteOffset\<close> on; \<open>set\<close> copies the source to its start and throws a
  \<open>RangeError\<close> when the source is longer than the window.
\<close>

definition set_from :: "u8 list \<Rightarrow> nat \<Rightarrow> u8 list \<Rightarrow> u8 list option" where
  "set_from buffer byteOffset source =
     (if byteOffset \<le> length buffer \<and> length source \<le> length buffer - byteOffset
      then Some (take byteOffset buffer @ source @ drop (byteOffset + length source) buffer)
      else None)"

record Blob =
  bytes :: "u8 list"
  mime :: string

text \<open>
  \<open>pcmToWav(pcmData, sampleRate = 24000, numChannels = 1)\<close>. The defaults stand for
  omitted arguments; the one caller (\<open>generateSpeech\<close>) passes both, and so does the
  model. \<open>new ArrayBuffer(44 + dataSize)\<close> is filled with zeros; that the browser
  can allocate it is taken for granted. The result is the \<open>Blob\<close> of the buffer, with
  its type.
\<close>

definition pcmToWav :: "u8 list \<Rightarrow> int \<Rightarrow> int \<Rightarrow> Blob option" where
  "pcmToWav pcmData sampleRate numChannels =
     (let bytesPerSample = 2;
          blockAlign = numChannels * bytesPerSample;
          byteRate = sampleRate * blockAlign;
          dataSize = length pcmData;
          fileSize = 36 + dataSize;
          buffer = replicate (44 + dataSize) (0 :: u8)
      in do {
        view \<leftarrow> writeString buffer 0 ''RIFF'';
        view \<leftarrow> setUint32 view 4 (int fileSize);
        view \<leftarrow> writeString view 8 ''WAVE'';
        view \<leftarrow> writeString view 12 ''fmt '';
        view \<leftarrow> setUint32 view 16 16;
        view \<leftarrow> setUint16 view 20 1;
        view \<leftarrow> setUint16 view 22 numChannels;
        view \<leftarrow> setUint32 view 24 sampleRate;
        view \<leftarrow> setUint32 view 28 byteRate;
        view \<leftarrow> setUint16 view 32 blockAlign;
        view \<leftarrow> setUint16 view 34 16;
        view \<leftarrow> writeString view 36 ''data'';
        view \<leftarrow> setUint32 view 40 (int dataSize);
        buffer' \<leftarrow> set_from view 44 pcmData;
        Some \<lparr>bytes = buffer', mime = ''audio/wav''\<rparr>
      })"

text \<open>
  The readers with which a header is parsed back: \<open>DataView.getUint16\<close> and
  \<open>DataView.getUint32\<close> with \<open>littleEndian = true\<close>, and the bytes of a range as
  characters. They are not part of the repository; the properties of the header are
  stated with them.
\<close>

definition getUint16 :: "u8 list \<Rightarrow> nat \<Rightarrow> int option" where
  "getUint16 view byteOffset =
     (if byteOffset + 2 \<le> length view
      then Some (uint (view ! byteOffset) + 256 * uint (view ! (byteOffset + 1)))
      else None)"

definition getUint32 :: "u8 list \<Rightarrow> nat \<Rightarrow> int option" where
  "getUint32 view byteOffset =
     (if byteOffset + 4 \<le> length view
      then Some (uint (view ! byteOffset) + 256 * uint (view ! (byteOffset + 1))
                 + 65536 * uint (view ! (byteOffset + 2))
                 + 16777216 * uint (view ! (byteOffset + 3)))
      else None)"

definition ascii :: "string \<Rightarrow> u8 list" where
  "ascii s = map of_char s"

definition readUint16 :: "Blob option \<Rightarrow> nat \<Rightarrow> int option" where
  "readUint16 r byteOffset = (case r of None \<Rightarrow> None | Some b \<Rightarrow> getUint16 (bytes b) byteOffset)"

text \<open>
  The header as the sequence of byte writes that \<open>pcmToWav\<close> performs, one update per
  byte in the order of the source; an auxiliary closed form for the proofs below.
\<close>

definition header_writes :: "u8 list \<Rightarrow> nat \<Rightarrow> int \<Rightarrow> int \<Rightarrow> u8 list" where
  "header_writes buffer n sr ch =
     buffer[0 := 82, 1 := 73, 2 := 70, 3 := 70,
            4 := word_of_int (36 + int n), 5 := word_of_int ((36 + int n) div 256),
            6 := word_of_int ((36 + int n) div 65536), 7 := word_of_int ((36 + int n) div 16777216),
            8 := 87, 9 := 65, 10 := 86, 11 := 69,
            12 := 102, 13 := 109, 14 := 116, 15 := 32,
            16 := word_of_int 16, 17 := word_of_int (16 div 256),
            18 := word_of_int (16 div 65536), 19 := word_of_int (16 div 16777216),
            20 := word_of_int 1, 21 := word_of_int (1 div 256),
            22 := word_of_int ch, 23 := word_of_int (ch div 256),
            24 := word_of_int sr, 25 := word_of_int (sr div 256),
            26 := word_of_int (sr div 65536), 27 := word_of_int (sr div 16777216),
            28 := word_of_int (sr * (ch * 2)), 29 := word_of_int (sr * (ch * 2) div 256),
            30 := word_of_int (sr * (ch * 2) div 65536), 31 := word_of_int (sr * (ch * 2) div 16777216),
            32 := word_of_int (ch * 2), 33 := word_of_int (ch * 2 div 256),
            34 := word_of_int 16, 35 := word_of_int (16 div 256),
            36 := 100, 37 := 97, 38 := 116, 39 := 97,
            40 := word_of_int (int n), 41 := word_of_int (int n div 256),
            42 := word_of_int (int n div 65536), 43 := word_of_int (int n div 16777216)]"

section \<open>The job queue of the Home page (pages/Home.tsx)\<close>

subsection \<open>Strings of the host language\<close>

text \<open>
  \<open>String.prototype.trim\<close>, \<open>Number.prototype.toString\<close> on a non-negative integer,
  \<open>padStart\<close> and \<open>includes\<close>. Strings are byte strings here: of the white space that
  \<open>trim\<close> removes, the ASCII part is modelled. A string is truthy when it is not empty.
\<close>

definition isWhiteSpace :: "char \<Rightarrow> bool" where
  "isWhiteSpace c = (c \<in> set [CHR '' '', CHR 0x09, CHR 0x0A, CHR 0x0B, CHR 0x0C, CHR 0x0D])"

definition trim :: "string \<Rightarrow> string" where
  "trim s = rev (dropWhile isWhiteSpace (rev (dropWhile isWhiteSpace s)))"

fun toString :: "nat \<Rightarrow> string" where
  "toString n =
     (if n < 10 then [char_of (48 + n)]
      else toString (n div 10) @ [char_of (48 + n mod 10)])"

definition padStart :: "string \<Rightarrow> nat \<Rightarrow> char \<Rightarrow> string" where
  "padStart s targetLength padChar = replicate (targetLength - length s) padChar @ s"

fun includes' :: "string \<Rightarrow> string \<Rightarrow> bool" where
  "includes' [] searchString = (searchString = [])"
| "includes' (c # cs) searchString = (prefix searchString (c # cs) \<or> includes' cs searchString)"

definition truthy :: "string \<Rightarrow> bool" where
  "truthy s = (s \<noteq> [])"

subsection \<open>Data (types.ts)\<close>

datatype ItemStatus = PENDING | GENERATING | SUCCESS | ERROR

text \<open>
  \<open>AudioItem\<close>; the fields \<open>id\<close> and \<open>text\<close> carry a prime, their names being taken in
  Isabelle. An optional field is an \<open>option\<close>.
\<close>

record AudioItem =
  id' :: string
  text' :: string
  systemInstruction :: "string option"
  voice :: string
  model :: string
  status :: ItemStatus
  audioUrl :: "string option"
  createdAt :: nat
  duration :: "nat option"
  error :: "string option"
  label :: "string option"

subsection \<open>State of the component\<close>

text \<open>
  The input fields of the page that \<open>handleAddToQueue\<close> reads (\<open>text\<close>, \<open>label\<close>,
  \<open>systemInstruction\<close>, \<open>selectedVoice\<close>, \<open>selectedModel\<close>) are passed to it as a
  \<open>Form\<close>.
\<close>

record Form =
  formText :: string
  formLabel :: string
  formSystemInstruction :: string
  selectedVoice :: string
  selectedModel :: string

text \<open>
  Both \<open>processQueue\<close> and \<open>handleGenerateSingle\<close> suspend at
  \<open>await generateSpeech(...)\<close>. A suspended call is the pair of the function that
  awaits and the job id its continuation has captured (\<open>nextItem.id\<close>, or \<open>id\<close>); the
  promise settles with a WAV blob or is rejected with an \<open>Error\<close>, of which the
  continuation reads \<open>message\<close>. The blob is represented by the unique part of the
  object URL that the browser will hand out for it.
\<close>

datatype caller = FromQueue | FromSingle

datatype outcome = Fulfilled string | Rejected string

text \<open>
  The React state \<open>items\<close>, \<open>isProcessing\<close>, \<open>userApiKey\<close>, and around it:
  \<^item> \<open>effectDue\<close>: a dependency of the queue effect (\<open>[items, isProcessing]\<close>) has
    changed since the effect last ran, so React will run it again;
  \<^item> \<open>revoked\<close>: the arguments of the calls of \<open>URL.revokeObjectURL\<close> so far, in order;
  \<^item> \<open>calls\<close>: the calls of \<open>generateSpeech\<close> so far, in order, and \<open>awaiting\<close>: those
    of them that have not settled yet.
\<close>

record Home =
  items :: "AudioItem list"
  isProcessing :: bool
  userApiKey :: "string option"
  effectDue :: bool
  revoked :: "string list"
  calls :: "(caller \<times> string) list"
  awaiting :: "(caller \<times> string) list"

text \<open>
  \<open>useState([])\<close>, \<open>useState(false)\<close>, \<open>useState(null)\<close>; every effect runs once after
  the first render.
\<close>

definition Home_init :: Home where
  "Home_init =
     \<lparr>items = [], isProcessing = False, userApiKey = None, effectDue = True,
      revoked = [], calls = [], awaiting = []\<rparr>"

text \<open>
  \<open>setItems(prev => f(prev))\<close> always installs a new array (every updater of the source
  is a \<open>map\<close>, a \<open>filter\<close> or a spread), so the effect becomes due;
  \<open>setIsProcessing(b)\<close> makes it due when the value changes.
\<close>

definition setItems :: "(AudioItem list \<Rightarrow> AudioItem list) \<Rightarrow> Home \<Rightarrow> Home" where
  "setItems f s = s\<lparr>items := f (items s), effectDue := True\<rparr>"

definition setIsProcessing :: "bool \<Rightarrow> Home \<Rightarrow> Home" where
  "setIsProcessing b s = s\<lparr>isProcessing := b, effectDue := (effectDue s \<or> b \<noteq> isProcessing s)\<rparr>"

text \<open>
  \<open>URL.createObjectURL(wavBlob)\<close> returns a new URL of the scheme \<open>blob:\<close>.
\<close>

definition createObjectURL :: "string \<Rightarrow> string" where
  "createObjectURL uuid = ''blob:'' @ uuid"

definition revokeObjectURL :: "string \<Rightarrow> Home \<Rightarrow> Home" where
  "revokeObjectURL url s = s\<lparr>revoked := revoked s @ [url]\<rparr>"

text \<open>The call of \<open>generateSpeech\<close> at which an async function suspends.\<close>

definition generateSpeech :: "caller \<Rightarrow> string \<Rightarrow> Home \<Rightarrow> Home" where
  "generateSpeech c jid s = s\<lparr>calls := calls s @ [(c, jid)], awaiting := awaiting s @ [(c, jid)]\<rparr>"

subsection \<open>The operations\<close>

text \<open>
  The effect that loads the key: \<open>const key = await getActiveApiKey(); if (key)
  setUserApiKey(key)\<close>.
\<close>

definition loadApiKey :: "string option \<Rightarrow> Home \<Rightarrow> Home" where
  "loadApiKey key s =
     (case key of
        None \<Rightarrow> s
      | Some k \<Rightarrow> if truthy k then s\<lparr>userApiKey := Some k\<rparr> else s)"

text \<open>
  \<open>handleAddToQueue\<close>, with \<open>crypto.randomUUID()\<close> and \<open>Date.now()\<close> as arguments. The
  new item goes to the front: \<open>setItems(prev => [newItem, ...prev])\<close>.
\<close>

definition handleAddToQueue :: "string \<Rightarrow> nat \<Rightarrow> Form \<Rightarrow> Home \<Rightarrow> Home" where
  "handleAddToQueue uuid now form s =
     (if \<not> truthy (trim (formText form)) then s
      else
        let itemLabel = (if truthy (trim (formLabel form)) then trim (formLabel form)
                         else padStart (toString (length (items s) + 1)) 2 CHR ''0'');
            newItem = \<lparr>id' = uuid,
                       text' = trim (formText form),
                       systemInstruction =
                         (if truthy (trim (formSystemInstruction form))
                          then Some (trim (formSystemInstruction form)) else None),
                       voice = selectedVoice form,
                       model = selectedModel form,
                       status = PENDING,
                       audioUrl = None,
                       createdAt = now,
                       duration = None,
                       error = None,
                       label = Some itemLabel\<rparr>
        in setItems (\<lambda>prev. newItem # prev) s)"

definition startQueue :: "Home \<Rightarrow> Home" where
  "startQueue s = setIsProcessing True s"

text \<open>
  \<open>processQueue\<close>, the body of the queue effect (\<open>useEffect(..., [items, isProcessing])\<close>):
  \<^verbatim>\<open>
  if (!isProcessing) return;
  const nextItem = items.find(i => i.status === 'PENDING');
  if (!nextItem) { setIsProcessing(false); return; }
  setItems(prev => prev.map(i => i.id === nextItem.id ? { ...i, status: 'GENERATING' } : i));
  try {
    if (!userApiKey) { throw new Error('No API key configured'); }
    const wavBlob = await generateSpeech({ ... });
    const url = URL.createObjectURL(wavBlob);
    setItems(prev => prev.map(i => i.id === nextItem.id
      ? { ...i, status: 'SUCCESS', audioUrl: url } : i));
  } catch (err) {
    setItems(prev => prev.map(i => i.id === nextItem.id
      ? { ...i, status: 'ERROR', error: err.message || "Failed to generate" } : i));
  }
  // Continue processing (the effect will trigger again because items changed)\<close>
  It is modelled in three parts: up to the \<open>await\<close>, the continuation after the promise
  is fulfilled, and the \<open>catch\<close> block. Without a key the \<open>throw\<close> inside \<open>try\<close> reaches
  the \<open>catch\<close> block at once, in the same run.
\<close>

definition processQueue_then :: "string \<Rightarrow> string \<Rightarrow> Home \<Rightarrow> Home" where
  "processQueue_then nextItem_id wavBlob s =
     (let url = createObjectURL wavBlob
      in setItems (\<lambda>prev. map (\<lambda>i. if id' i = nextItem_id
                                     then i\<lparr>status := SUCCESS, audioUrl := Some url\<rparr>
                                     else i) prev) s)"

definition processQueue_catch :: "string \<Rightarrow> string \<Rightarrow> Home \<Rightarrow> Home" where
  "processQueue_catch nextItem_id message s =
     setItems (\<lambda>prev. map (\<lambda>i. if id' i = nextItem_id
                                then i\<lparr>status := ERROR,
                                       error := Some (if truthy message then message
                                                      else ''Failed to generate'')\<rparr>
                                else i) prev) s"

definition processQueue :: "Home \<Rightarrow> Home" where
  "processQueue s =
     (if \<not> isProcessing s then s
      else case find (\<lambda>i. status i = PENDING) (items s) of
        None \<Rightarrow> setIsProcessing False s
      | Some nextItem \<Rightarrow>
          let s' = setItems (\<lambda>prev. map (\<lambda>i. if id' i = id' nextItem
                                              then i\<lparr>status := GENERATING\<rparr>
                                              else i) prev) s
          in (case userApiKey s of
                None \<Rightarrow> processQueue_catch (id' nextItem) ''No API key configured'' s'
              | Some apiKey \<Rightarrow> generateSpeech FromQueue (id' nextItem) s'))"

text \<open>
  \<open>handleGenerateSingle(id)\<close> starts with
  \<^verbatim>\<open>
  const itemToProcess = items.find(i => i.id === id);
  if (!itemToProcess) return;
  setItems(prev => prev.map(i => i.id === id ? { ...i, status: 'GENERATING' } : i));\<close>
  and goes on as \<open>processQueue\<close> does, with \<open>id\<close> for \<open>nextItem.id\<close> and
  \<open>err.message || "Failed"\<close>; it is modelled in the same three parts.
\<close>

definition handleGenerateSingle_then :: "string \<Rightarrow> string \<Rightarrow> Home \<Rightarrow> Home" where
  "handleGenerateSingle_then jid wavBlob s =
     (let url = createObjectURL wavBlob
      in setItems (\<lambda>prev. map (\<lambda>i. if id' i = jid
                                     then i\<lparr>status := SUCCESS, audioUrl := Some url\<rparr>
                                     else i) prev) s)"

definition handleGenerateSingle_catch :: "string \<Rightarrow> string \<Rightarrow> Home \<Rightarrow> Home" where
  "handleGenerateSingle_catch jid message s =
     setItems (\<lambda>prev. map (\<lambda>i. if id' i = jid
                                then i\<lparr>status := ERROR,
                                       error := Some (if truthy message then message else ''Failed'')\<rparr>
                                else i) prev) s"

definition handleGenerateSingle :: "string \<Rightarrow> Home \<Rightarrow> Home" where
  "handleGenerateSingle jid s =
     (case find (\<lambda>i. id' i = jid) (items s) of
        None \<Rightarrow> s
      | Some itemToProcess \<Rightarrow>
          let s' = setItems (\<lambda>prev. map (\<lambda>i. if id' i = jid
                                              then i\<lparr>status := GENERATING\<rparr>
                                              else i) prev) s
          in (case userApiKey s of
                None \<Rightarrow> handleGenerateSingle_catch jid ''No API key configured'' s'
              | Some apiKey \<Rightarrow> generateSpeech FromSingle jid s'))"

text \<open>
  \<open>handleDelete(id)\<close>: inside the updater, first the URL of the item found is revoked,
  then the list without the item is returned.
  \<^verbatim>\<open>
  setItems(prev => {
    const item = prev.find(i => i.id === id);
    if (item && item.audioUrl) { URL.revokeObjectURL(item.audioUrl); }
    return prev.filter(i => i.id !== id);
  });\<close>
\<close>

definition handleDelete :: "string \<Rightarrow> Home \<Rightarrow> Home" where
  "handleDelete jid s =
     (let s' = (case find (\<lambda>i. id' i = jid) (items s) of
                  None \<Rightarrow> s
                | Some item \<Rightarrow>
                    (case audioUrl item of
                       None \<Rightarrow> s
                     | Some url \<Rightarrow> if truthy url then revokeObjectURL url s else s))
      in setItems (\<lambda>prev. filter (\<lambda>i. id' i \<noteq> jid) prev) s')"

text \<open>
  The message of the \<open>Error\<close> that \<open>generateSpeech\<close> throws from its \<open>catch\<close> block
  (services/gemini.ts), given the model name and the \<open>errorMessage\<close> it has extracted
  from what the API call threw.
\<close>

definition generateSpeech_rethrow :: "string \<Rightarrow> string \<Rightarrow> string" where
  "generateSpeech_rethrow modelName errorMessage =
     (if includes' errorMessage ''404''
      then ''Model '' @ [CHR 0x27] @ modelName @ [CHR 0x27]
           @ '' not found (404). It may be deprecated or incorrect.''
      else if includes' errorMessage ''modality'' \<or> includes' errorMessage ''AUDIO''
      then ''The model '' @ [CHR 0x27] @ modelName @ [CHR 0x27]
           @ '' does not support Audio generation. Please select a compatible TTS model.''
      else if includes' errorMessage ''500'' \<or> includes' errorMessage ''503''
      then ''Google API Service Error. Please try again later.''
      else errorMessage)"

subsection \<open>The event loop\<close>

text \<open>
  A pending promise settles once: \<open>settle\<close> resumes the function that awaits it.
\<close>

definition settle :: "caller \<Rightarrow> string \<Rightarrow> outcome \<Rightarrow> Home \<Rightarrow> Home" where
  "settle c jid out s =
     (if (c, jid) \<notin> set (awaiting s) then s
      else
        let s' = s\<lparr>awaiting := remove1 (c, jid) (awaiting s)\<rparr>
        in (case (c, out) of
              (FromQueue, Fulfilled wavBlob) \<Rightarrow> processQueue_then jid wavBlob s'
            | (FromQueue, Rejected message) \<Rightarrow> processQueue_catch jid message s'
            | (FromSingle, Fulfilled wavBlob) \<Rightarrow> handleGenerateSingle_then jid wavBlob s'
            | (FromSingle, Rejected message) \<Rightarrow> handleGenerateSingle_catch jid message s'))"

text \<open>
  What can happen to the page, one event at a time (the event loop of the browser runs
  each to completion). \<open>crypto.randomUUID()\<close> does not repeat an id: an
  \<open>AddToQueue\<close> whose id is that of a job in the list or of an earlier call does not
  occur. The queue effect runs when it is due.
\<close>

datatype event =
    ApiKeyLoaded "string option"
  | AddToQueue string nat Form
  | StartQueue
  | QueueEffect
  | GenerateSingle string
  | Delete string
  | Settle caller string outcome

definition fresh :: "string \<Rightarrow> Home \<Rightarrow> bool" where
  "fresh uuid s = (uuid \<notin> set (map id' (items s)) \<and> uuid \<notin> set (map snd (calls s)))"

fun step :: "event \<Rightarrow> Home \<Rightarrow> Home" where
  "step (ApiKeyLoaded key) s = loadApiKey key s"
| "step (AddToQueue uuid now form) s =
     (if fresh uuid s then handleAddToQueue uuid now form s else s)"
| "step StartQueue s = startQueue s"
| "step QueueEffect s = (if effectDue s then processQueue (s\<lparr>effectDue := False\<rparr>) else s)"
| "step (GenerateSingle jid) s = handleGenerateSingle jid s"
| "step (Delete jid) s = handleDelete jid s"
| "step (Settle c jid out) s = settle c jid out s"

fun run :: "event list \<Rightarrow> Home \<Rightarrow> Home" where
  "run [] s = s"
| "run (e # es) s = run es (step e s)"

inductive reachable :: "Home \<Rightarrow> bool" where
  init: "reachable Home_init"
| step: "reachable s \<Longrightarrow> reachable (step e s)"


text \<open>The ids of the jobs that are \<open>PENDING\<close>, and of those \<open>GENERATING\<close>, in list order.\<close>

definition pending :: "Home \<Rightarrow> string list" where
  "pending s = map id' (filter (\<lambda>i. status i = PENDING) (items s))"

definition generating :: "Home \<Rightarrow> string list" where
  "generating s = map id' (filter (\<lambda>i. status i = GENERATING) (items s))"

subsection \<open>Invariants of a job record\<close>

definition present :: "string option \<Rightarrow> bool" where
  "present field = (case field of None \<Rightarrow> False | Some v \<Rightarrow> truthy v)"

text \<open>
  The invariant as the specification words it: the result handle is present exactly in
  \<open>SUCCESS\<close>, the error detail exactly in \<open>ERROR\<close>.
\<close>

definition spec_field_invariant :: "AudioItem \<Rightarrow> bool" where
  "spec_field_invariant i =
     ((present (audioUrl i) = (status i = SUCCESS)) \<and> (present (error i) = (status i = ERROR)))"

text \<open>What the operations keep: one direction of it, and fresh jobs carry neither field.\<close>

definition field_invariant :: "AudioItem \<Rightarrow> bool" where
  "field_invariant i =
     (case status i of
        PENDING \<Rightarrow> audioUrl i = None \<and> error i = None
      | GENERATING \<Rightarrow> True
      | SUCCESS \<Rightarrow> present (audioUrl i)
      | ERROR \<Rightarrow> present (error i))"

subsection \<open>Auxiliary notions for the proofs\<close>

text \<open>A submission: the id and time the new job gets, and the form as filled in.\<close>

fun submit :: "string \<times> nat \<times> Form \<Rightarrow> event" where
  "submit (uuid, now, form) = AddToQueue uuid now form"


subsection \<open>Example runs\<close>

text \<open>
  A form as the page shows it at first (\<open>selectedVoice = GEMINI_VOICES[2].id\<close>,
  \<open>selectedModel = MODELS[0].id\<close>) with a text typed in, and three submissions.
\<close>

definition form_with :: "string \<Rightarrow> Form" where
  "form_with t =
     \<lparr>formText = t, formLabel = [], formSystemInstruction = [],
      selectedVoice = ''Charon'', selectedModel = ''gemini-2.5-flash-preview-tts''\<rparr>"

definition three_jobs :: "(string \<times> nat \<times> Form) list" where
  "three_jobs =
     [(''J1'', 1, form_with ''first''), (''J2'', 2, form_with ''second''),
      (''J3'', 3, form_with ''third'')]"

text \<open>The key is loaded, three jobs are submitted, the queue is started.\<close>

definition queue_started :: Home where
  "queue_started = run (ApiKeyLoaded (Some ''key'') # map submit three_jobs @ [StartQueue]) Home_init"

text \<open>One job, generated by hand with success.\<close>

definition one_success :: Home where
  "one_success =
     run [ApiKeyLoaded (Some ''key''), AddToQueue ''J1'' 1 (form_with ''first''),
          GenerateSingle ''J1'', Settle FromSingle ''J1'' (Fulfilled ''u1'')] Home_init"

text \<open>Two jobs; the first is being generated by hand, its call is in flight.\<close>

definition in_flight :: Home where
  "in_flight =
     run [ApiKeyLoaded (Some ''key''), AddToQueue ''J1'' 1 (form_with ''first''),
          AddToQueue ''J2'' 2 (form_with ''second''), GenerateSingle ''J1'']
       Home_init"

section \<open>Properties of the encoder\<close>

subsection \<open>Little-endian bytes of an integer\<close>

lemma le_bytes16_int: "(v::int) mod 256 + 256 * (v div 256 mod 256) = v mod 65536"
  using zmod_zmult2_eq [of 256 v 256] by simp

lemma mod_split32: "(v::int) mod 4294967296 = 65536 * (v div 65536 mod 65536) + v mod 65536"
proof -
  have "(65536::int) * 65536 = 4294967296"
    by (simp only: mult_numeral_left_semiring_numeral num.simps mult_num_simps add_num_simps one_plus_BitM)
  moreover have "v mod (65536 * 65536) = 65536 * (v div 65536 mod 65536) + v mod 65536"
    by (rule zmod_zmult2_eq) (simp only: zero_le_numeral)
  ultimately show ?thesis by (simp only:)
qed

lemma div_div24: "(v::int) div 65536 div 256 = v div 16777216"
  using zdiv_zmult2_eq [of 256 v 65536] by simp

lemma le_bytes32_int:
  "(v::int) mod 256 + 256 * (v div 256 mod 256) + 65536 * (v div 65536 mod 256)
     + 16777216 * (v div 16777216 mod 256) = v mod 4294967296"
proof -
  have hi: "v div 65536 mod 65536 = (v div 65536) mod 256 + 256 * (v div 16777216 mod 256)"
    using le_bytes16_int [of "v div 65536"] by (simp only: div_div24)
  have "v mod 4294967296 =
          65536 * ((v div 65536) mod 256 + 256 * (v div 16777216 mod 256))
          + (v mod 256 + 256 * (v div 256 mod 256))"
    by (simp only: mod_split32 hi le_bytes16_int)
  also have "\<dots> = v mod 256 + 256 * (v div 256 mod 256) + 65536 * (v div 65536 mod 256)
                     + 16777216 * (v div 16777216 mod 256)"
    by (simp add: algebra_simps)
  finally show ?thesis by (rule sym)
qed

lemma uint_byte: "uint (word_of_int v :: u8) = v mod 256"
  by (simp add: uint_word_of_int)

lemma getUint16_bytes:
  assumes "byteOffset + 2 \<le> length view"
    and "view ! byteOffset = word_of_int v"
    and "view ! (byteOffset + 1) = word_of_int (v div 256)"
  shows "getUint16 view byteOffset = Some (v mod 65536)"
  using assms by (simp add: getUint16_def uint_byte le_bytes16_int)

lemma getUint32_bytes:
  assumes "byteOffset + 4 \<le> length view"
    and "view ! byteOffset = word_of_int v"
    and "view ! (byteOffset + 1) = word_of_int (v div 256)"
    and "view ! (byteOffset + 2) = word_of_int (v div 65536)"
    and "view ! (byteOffset + 3) = word_of_int (v div 16777216)"
  shows "getUint32 view byteOffset = Some (v mod 4294967296)"
proof -
  have "getUint32 view byteOffset =
          Some (v mod 256 + 256 * (v div 256 mod 256) + 65536 * (v div 65536 mod 256)
                + 16777216 * (v div 16777216 mod 256))"
    using assms by (simp add: getUint32_def uint_byte)
  then show ?thesis by (simp only: le_bytes32_int)
qed

subsection \<open>The buffer that \<open>pcmToWav\<close> returns\<close>

lemma length_header_writes: "length (header_writes buffer n sr ch) = length buffer"
  by (simp add: header_writes_def)

lemma pcmToWav_closed:
  "pcmToWav pcm sr ch =
     Some \<lparr>bytes = take 44 (header_writes (replicate (44 + length pcm) 0) (length pcm) sr ch) @ pcm,
           mime = ''audio/wav''\<rparr>"
  by (simp add: pcmToWav_def Let_def setUint8_def setUint16_def setUint32_def set_from_def
      header_writes_def numeral_2_eq_2 numeral_3_eq_3)

lemma pcmToWav_nth:
  assumes "k < 44"
  shows "bytes (the (pcmToWav pcm sr ch)) ! k =
           header_writes (replicate (44 + length pcm) 0) (length pcm) sr ch ! k"
  using assms by (simp add: pcmToWav_closed nth_append length_header_writes)

lemma pcmToWav_length: "length (bytes (the (pcmToWav pcm sr ch))) = 44 + length pcm"
  by (simp add: pcmToWav_closed length_header_writes)

lemma pcmToWav_data: "drop 44 (bytes (the (pcmToWav pcm sr ch))) = pcm"
  by (simp add: pcmToWav_closed length_header_writes)

lemma field_fileSize:
  "getUint32 (bytes (the (pcmToWav pcm sr ch))) 4 = Some ((36 + int (length pcm)) mod 4294967296)"
  by (rule getUint32_bytes) (simp_all add: pcmToWav_length pcmToWav_nth header_writes_def)

lemma field_fmtSize:
  "getUint32 (bytes (the (pcmToWav pcm sr ch))) 16 = Some (16 mod 4294967296)"
  by (rule getUint32_bytes) (simp_all add: pcmToWav_length pcmToWav_nth header_writes_def)

lemma field_audioFormat:
  "getUint16 (bytes (the (pcmToWav pcm sr ch))) 20 = Some (1 mod 65536)"
  by (rule getUint16_bytes) (simp_all add: pcmToWav_length pcmToWav_nth header_writes_def)

lemma field_numChannels:
  "getUint16 (bytes (the (pcmToWav pcm sr ch))) 22 = Some (ch mod 65536)"
  by (rule getUint16_bytes) (simp_all add: pcmToWav_length pcmToWav_nth header_writes_def)

lemma field_sampleRate:
  "getUint32 (bytes (the (pcmToWav pcm sr ch))) 24 = Some (sr mod 4294967296)"
  by (rule getUint32_bytes) (simp_all add: pcmToWav_length pcmToWav_nth header_writes_def)

lemma field_byteRate:
  "getUint32 (bytes (the (pcmToWav pcm sr ch))) 28 = Some (sr * (ch * 2) mod 4294967296)"
  by (rule getUint32_bytes) (simp_all add: pcmToWav_length pcmToWav_nth header_writes_def)

lemma field_blockAlign:
  "getUint16 (bytes (the (pcmToWav pcm sr ch))) 32 = Some (ch * 2 mod 65536)"
  by (rule getUint16_bytes) (simp_all add: pcmToWav_length pcmToWav_nth header_writes_def)

lemma field_bitsPerSample:
  "getUint16 (bytes (the (pcmToWav pcm sr ch))) 34 = Some (16 mod 65536)"
  by (rule getUint16_bytes) (simp_all add: pcmToWav_length pcmToWav_nth header_writes_def)

lemma field_dataSize:
  "getUint32 (bytes (the (pcmToWav pcm sr ch))) 40 = Some (int (length pcm) mod 4294967296)"
  by (rule getUint32_bytes) (simp_all add: pcmToWav_length pcmToWav_nth header_writes_def)

lemma take4_drop:
  assumes "k + 4 \<le> length xs"
  shows "take 4 (drop k xs) = [xs ! k, xs ! (k + 1), xs ! (k + 2), xs ! (k + 3)]"
proof (rule nth_equalityI)
  show "length (take 4 (drop k xs)) = length [xs ! k, xs ! (k + 1), xs ! (k + 2), xs ! (k + 3)]"
    using assms by simp
next
  fix i assume "i < length (take 4 (drop k xs))"
  then have "i < 4" by simp
  then consider "i = 0" | "i = 1" | "i = 2" | "i = 3" by linarith
  then show "take 4 (drop k xs) ! i = [xs ! k, xs ! (k + 1), xs ! (k + 2), xs ! (k + 3)] ! i"
    using assms by cases simp_all
qed

lemma tag_RIFF: "take 4 (bytes (the (pcmToWav pcm sr ch))) = ascii ''RIFF''"
  using take4_drop [of 0 "bytes (the (pcmToWav pcm sr ch))"]
  by (simp add: pcmToWav_length pcmToWav_nth header_writes_def ascii_def numeral_2_eq_2 numeral_3_eq_3)

lemma tag_WAVE: "take 4 (drop 8 (bytes (the (pcmToWav pcm sr ch)))) = ascii ''WAVE''"
  by (subst take4_drop) (simp_all add: pcmToWav_length pcmToWav_nth header_writes_def ascii_def)

lemma tag_fmt: "take 4 (drop 12 (bytes (the (pcmToWav pcm sr ch)))) = ascii ''fmt ''"
  by (subst take4_drop) (simp_all add: pcmToWav_length pcmToWav_nth header_writes_def ascii_def)

lemma tag_data: "take 4 (drop 36 (bytes (the (pcmToWav pcm sr ch)))) = ascii ''data''"
  by (subst take4_drop) (simp_all add: pcmToWav_length pcmToWav_nth header_writes_def ascii_def)

subsection \<open>The header layout\<close>

text \<open>
  Claim C1, as amended: for every byte sequence \<open>pcmData\<close> and all integers \<open>sr\<close>,
  \<open>ch\<close> whose header values fit their fields (\<open>36 + length pcmData < 2 ^ 32\<close>,
  \<open>0 \<le> sr < 2 ^ 32\<close>, \<open>0 \<le> ch\<close>, \<open>ch * 2 < 2 ^ 16\<close>, \<open>sr * ch * 2 < 2 ^ 32\<close>),
  \<open>pcmToWav\<close> returns a buffer of length \<open>44 + length pcmData\<close> with the bytes
  \<open>RIFF\<close>, \<open>WAVE\<close>, \<open>fmt\<close> and \<open>data\<close> at offsets 0, 8, 12 and 36, the little-endian
  fields \<open>36 + length pcmData\<close>, 16, 1, \<open>ch\<close>, \<open>sr\<close>, \<open>sr * ch * 2\<close>, \<open>ch * 2\<close>, 16 and
  \<open>length pcmData\<close> at offsets 4, 16, 20, 22, 24, 28, 32, 34 and 40, and \<open>pcmData\<close>
  itself from offset 44 on. (Without the bounds each field holds its value modulo
  \<open>2 ^ 16\<close> or \<open>2 ^ 32\<close>: the \<open>field_\<close> lemmas above.)
\<close>

theorem pcmToWav_header_layout:
  assumes "36 + int (length pcmData) < 4294967296"
    and "0 \<le> sr" and "sr < 4294967296"
    and "0 \<le> ch" and "ch * 2 < 65536"
    and "sr * ch * 2 < 4294967296"
  shows "\<exists>b. pcmToWav pcmData sr ch = Some b
           \<and> length (bytes b) = 44 + length pcmData
           \<and> take 4 (bytes b) = ascii ''RIFF''
           \<and> getUint32 (bytes b) 4 = Some (36 + int (length pcmData))
           \<and> take 4 (drop 8 (bytes b)) = ascii ''WAVE''
           \<and> take 4 (drop 12 (bytes b)) = ascii ''fmt ''
           \<and> getUint32 (bytes b) 16 = Some 16
           \<and> getUint16 (bytes b) 20 = Some 1
           \<and> getUint16 (bytes b) 22 = Some ch
           \<and> getUint32 (bytes b) 24 = Some sr
           \<and> getUint32 (bytes b) 28 = Some (sr * ch * 2)
           \<and> getUint16 (bytes b) 32 = Some (ch * 2)
           \<and> getUint16 (bytes b) 34 = Some 16
           \<and> take 4 (drop 36 (bytes b)) = ascii ''data''
           \<and> getUint32 (bytes b) 40 = Some (int (length pcmData))
           \<and> drop 44 (bytes b) = pcmData"
proof -
  define b where "b = the (pcmToWav pcmData sr ch)"
  have some: "pcmToWav pcmData sr ch = Some b"
    by (simp add: b_def pcmToWav_closed)
  have rate: "sr * (ch * 2) = sr * ch * 2" by simp
  have ch16: "ch < 65536" using assms(4,5) by linarith
  have f4: "getUint32 (bytes b) 4 = Some (36 + int (length pcmData))"
    unfolding b_def field_fileSize using assms(1) by (simp only: mod_pos_pos_trivial)
  have f16: "getUint32 (bytes b) 16 = Some 16"
    unfolding b_def field_fmtSize by simp
  have f20: "getUint16 (bytes b) 20 = Some 1"
    unfolding b_def field_audioFormat by simp
  have f22: "getUint16 (bytes b) 22 = Some ch"
    unfolding b_def field_numChannels using assms(4) ch16 by (simp only: mod_pos_pos_trivial)
  have f24: "getUint32 (bytes b) 24 = Some sr"
    unfolding b_def field_sampleRate using assms(2,3) by (simp only: mod_pos_pos_trivial)
  have "0 \<le> sr * ch * 2" using assms(2,4) by simp
  then have f28: "getUint32 (bytes b) 28 = Some (sr * ch * 2)"
    unfolding b_def field_byteRate rate using assms(6) by (simp only: mod_pos_pos_trivial)
  have "0 \<le> ch * 2" using assms(4) by simp
  then have f32: "getUint16 (bytes b) 32 = Some (ch * 2)"
    unfolding b_def field_blockAlign using assms(5) by (simp only: mod_pos_pos_trivial)
  have f34: "getUint16 (bytes b) 34 = Some 16"
    unfolding b_def field_bitsPerSample by simp
  have "0 \<le> int (length pcmData)" by simp
  moreover have "int (length pcmData) < 4294967296" using assms(1) by linarith
  ultimately have f40: "getUint32 (bytes b) 40 = Some (int (length pcmData))"
    unfolding b_def field_dataSize by (simp only: mod_pos_pos_trivial)
  show ?thesis
    using some f4 f16 f20 f22 f24 f28 f32 f34 f40
    by (intro exI [of _ b]) (simp add: b_def pcmToWav_length pcmToWav_data tag_RIFF tag_WAVE tag_fmt tag_data)
qed

text \<open>
  The example of the specification: four zero bytes at 24000 Hz, mono.
\<close>

theorem pcmToWav_header_layout_witness:
  "36 + int (length [0, 0, 0, 0 :: u8]) < 4294967296
   \<and> (0::int) \<le> 24000 \<and> (24000::int) < 4294967296 \<and> (0::int) \<le> 1 \<and> (1::int) * 2 < 65536
   \<and> (24000::int) * 1 * 2 < 4294967296
   \<and> (\<exists>b. pcmToWav [0, 0, 0, 0] 24000 1 = Some b
           \<and> length (bytes b) = 48
           \<and> take 4 (bytes b) = ascii ''RIFF''
           \<and> getUint32 (bytes b) 4 = Some 40
           \<and> take 4 (drop 8 (bytes b)) = ascii ''WAVE''
           \<and> getUint32 (bytes b) 40 = Some 4)"
  using pcmToWav_header_layout [of "[0, 0, 0, 0]" 24000 1] by auto

text \<open>
  Claim C1 as stated, for every channel count, fails: with 65536 channels the 16-bit
  field at offset 22 holds 0.
\<close>

theorem pcmToWav_channels_counterexample:
  "readUint16 (pcmToWav [0, 0, 0, 0] 24000 65536) 22 = Some 0
   \<and> readUint16 (pcmToWav [0, 0, 0, 0] 24000 65536) 22 \<noteq> Some 65536"
  by (simp add: readUint16_def pcmToWav_closed)
     (simp add: field_numChannels [of "[0, 0, 0, 0]" 24000 65536, simplified pcmToWav_closed, simplified])

subsection \<open>No validation\<close>

text \<open>
  Claim C6, as amended: the encoder validates nothing. For every input, also a sample
  rate or channel count that is zero or negative, and PCM data that is empty or not a
  whole number of sample frames, \<open>pcmToWav\<close> throws no error and returns a buffer of
  length \<open>44 + length pcmData\<close>.
\<close>

theorem pcmToWav_never_rejects:
  "\<exists>b. pcmToWav pcmData sampleRate numChannels = Some b \<and> length (bytes b) = 44 + length pcmData"
  using pcmToWav_length [of pcmData sampleRate numChannels] by (simp add: pcmToWav_closed)

text \<open>
  Claim C6 as stated fails: empty data with sample rate 0 and 0 channels, and three
  bytes (not a whole 16-bit frame) with sample rate \<open>-1\<close>, are both encoded.
\<close>

theorem pcmToWav_invalid_input_counterexample:
  "pcmToWav [] 0 0 =
     Some \<lparr>bytes = [82, 73, 70, 70, 36, 0, 0, 0, 87, 65, 86, 69, 102, 109, 116, 32, 16, 0, 0, 0,
                    1, 0, 0, 0, 0, 0, 0, 0, 0, 0, 0, 0, 0, 0, 16, 0, 100, 97, 116, 97, 0, 0, 0, 0],
            mime = ''audio/wav''\<rparr>
   \<and> pcmToWav [1, 2, 3] (- 1) 1 =
     Some \<lparr>bytes = [82, 73, 70, 70, 39, 0, 0, 0, 87, 65, 86, 69, 102, 109, 116, 32, 16, 0, 0, 0,
                    1, 0, 1, 0, 255, 255, 255, 255, 254, 255, 255, 255, 2, 0, 16, 0,
                    100, 97, 116, 97, 3, 0, 0, 0, 1, 2, 3],
            mime = ''audio/wav''\<rparr>"
  by code_simp

section \<open>Properties of the job queue\<close>

lemmas op_defs =
  setItems_def setIsProcessing_def revokeObjectURL_def generateSpeech_def loadApiKey_def
  handleAddToQueue_def startQueue_def processQueue_then_def processQueue_catch_def
  processQueue_def handleGenerateSingle_then_def handleGenerateSingle_catch_def
  handleGenerateSingle_def handleDelete_def settle_def

subsection \<open>How the operations change the list\<close>

lemma map_id_update:
  assumes "\<And>i. id' (f i) = id' i"
  shows "map id' (map (\<lambda>i. if id' i = j then f i else i) xs) = map id' xs"
  using assms by (induction xs) auto


lemma ids_loadApiKey: "map id' (items (loadApiKey key s)) = map id' (items s)"
  by (simp add: loadApiKey_def split: option.splits)

lemma ids_startQueue: "map id' (items (startQueue s)) = map id' (items s)"
  by (simp add: startQueue_def setIsProcessing_def)

lemma ids_processQueue: "map id' (items (processQueue s)) = map id' (items s)"
  by (simp add: op_defs Let_def map_id_update split: option.splits)

lemma ids_handleGenerateSingle: "map id' (items (handleGenerateSingle jid s)) = map id' (items s)"
  by (simp add: op_defs Let_def map_id_update split: option.splits)

lemma ids_settle: "map id' (items (settle c jid out s)) = map id' (items s)"
  by (simp add: op_defs Let_def map_id_update split: option.splits caller.splits outcome.splits)

lemma items_handleDelete: "items (handleDelete jid s) = filter (\<lambda>i. id' i \<noteq> jid) (items s)"
  by (simp add: op_defs Let_def split: option.splits)




lemma reachable_run: "reachable s \<Longrightarrow> reachable (run evs s)"
  by (induction evs arbitrary: s) (simp_all add: reachable.step)

lemma find_id_None: "find (\<lambda>i. id' i = jid) xs = None \<longleftrightarrow> jid \<notin> set (map id' xs)"
  by (induction xs) auto


subsection \<open>The fields of a job against its status\<close>

lemma fields_new [simp]: "field_invariant (i\<lparr>status := GENERATING\<rparr>)"
  "field_invariant (i\<lparr>status := SUCCESS, audioUrl := Some (createObjectURL w)\<rparr>)"
  "truthy m \<Longrightarrow> field_invariant (i\<lparr>status := ERROR, error := Some m\<rparr>)"
  by (simp_all add: field_invariant_def present_def truthy_def createObjectURL_def)

lemma fields_loadApiKey:
  "list_all field_invariant (items s) \<Longrightarrow> list_all field_invariant (items (loadApiKey key s))"
  by (simp add: loadApiKey_def split: option.splits)

lemma fields_handleAddToQueue:
  "list_all field_invariant (items s)
   \<Longrightarrow> list_all field_invariant (items (handleAddToQueue uuid now form s))"
  by (simp add: op_defs Let_def field_invariant_def)

lemma fields_processQueue:
  "list_all field_invariant (items s) \<Longrightarrow> list_all field_invariant (items (processQueue s))"
  by (auto simp: op_defs Let_def list_all_iff truthy_def split: option.splits)

lemma fields_handleGenerateSingle:
  "list_all field_invariant (items s)
   \<Longrightarrow> list_all field_invariant (items (handleGenerateSingle jid s))"
  by (auto simp: op_defs Let_def list_all_iff truthy_def split: option.splits)

lemma fields_handleDelete:
  "list_all field_invariant (items s) \<Longrightarrow> list_all field_invariant (items (handleDelete jid s))"
  by (simp add: items_handleDelete list_all_iff)

lemma fields_settle:
  "list_all field_invariant (items s) \<Longrightarrow> list_all field_invariant (items (settle c jid out s))"
  by (auto simp: op_defs Let_def list_all_iff truthy_def split: option.splits caller.splits outcome.splits)

lemma fields_step:
  assumes "list_all field_invariant (items s)"
  shows "list_all field_invariant (items (step e s))"
proof (cases e)
  case QueueEffect
  then show ?thesis using assms fields_processQueue [of "s\<lparr>effectDue := False\<rparr>"] by simp
qed (use assms in \<open>simp_all add: fields_loadApiKey fields_handleAddToQueue fields_handleGenerateSingle
      fields_handleDelete fields_settle startQueue_def setIsProcessing_def\<close>)

lemma reachable_fields: "reachable s \<Longrightarrow> list_all field_invariant (items s)"
  by (induction rule: reachable.induct) (simp_all add: Home_init_def fields_step)

text \<open>
  Claim C4, as amended: in every reachable state of the page each job record satisfies
  one direction of the invariant: a job in \<open>SUCCESS\<close> has its result handle
  (\<open>audioUrl\<close>), a job in \<open>ERROR\<close> has its error detail (\<open>error\<close>), and a job in
  \<open>PENDING\<close> has neither. Every operation keeps this: submission, automatic pick-up,
  completion with success or failure, manual generation from any state, deletion.
\<close>

theorem reachable_job_fields:
  assumes "reachable s" and "i \<in> set (items s)"
  shows "(status i = SUCCESS \<longrightarrow> present (audioUrl i))
         \<and> (status i = ERROR \<longrightarrow> present (error i))
         \<and> (status i = PENDING \<longrightarrow> audioUrl i = None \<and> error i = None)"
proof -
  have "field_invariant i"
    using reachable_fields [OF assms(1)] assms(2) by (simp add: list_all_iff)
  then show ?thesis by (cases "status i") (simp_all add: field_invariant_def)
qed

text \<open>
  A job generated by hand with success: it is in \<open>SUCCESS\<close> and has its URL.
\<close>

theorem reachable_job_fields_witness:
  "reachable one_success
   \<and> hd (items one_success) \<in> set (items one_success)
   \<and> status (hd (items one_success)) = SUCCESS
   \<and> present (audioUrl (hd (items one_success)))"
proof -
  have r: "reachable one_success"
    unfolding one_success_def by (rule reachable_run [OF reachable.init])
  have m: "hd (items one_success) \<in> set (items one_success)" by code_simp
  have st: "status (hd (items one_success)) = SUCCESS" by code_simp
  show ?thesis using reachable_job_fields [OF r m] r m st by blast
qed

text \<open>
  Claim C4 as stated, with "if and only if", fails: \<open>handleGenerateSingle\<close> sets only
  \<open>status\<close> (\<open>{ ...i, status: 'GENERATING' }\<close>), so a job regenerated from \<open>SUCCESS\<close> is
  \<open>GENERATING\<close> and still has the \<open>audioUrl\<close> of the earlier attempt.
\<close>

theorem regenerate_keeps_result_counterexample:
  "\<not> list_all spec_field_invariant (items (step (GenerateSingle ''J1'') one_success))
   \<and> map status (items (step (GenerateSingle ''J1'') one_success)) = [GENERATING]
   \<and> map audioUrl (items (step (GenerateSingle ''J1'') one_success)) = [Some ''blob:u1'']"
  by code_simp

subsection \<open>The manual trigger on an unknown id\<close>

text \<open>
  Claim C10: \<open>handleGenerateSingle\<close> with an id that no job in the list has returns at
  once (\<open>if (!itemToProcess) return\<close>): the whole state stays as it is, that is the job
  list, the processing flag, and the calls of \<open>generateSpeech\<close>, to which none is added.
\<close>

theorem generate_single_unknown_id:
  assumes "jid \<notin> set (map id' (items s))"
  shows "step (GenerateSingle jid) s = s"
  using assms find_id_None [of jid "items s"] by (simp add: handleGenerateSingle_def)

text \<open>
  In the state with the one job \<open>J1\<close>, the trigger for \<open>J9\<close> changes nothing.
\<close>

theorem generate_single_unknown_id_witness:
  "''J9'' \<notin> set (map id' (items one_success))
   \<and> step (GenerateSingle ''J9'') one_success = one_success"
proof -
  have a: "''J9'' \<notin> set (map id' (items one_success))" by code_simp
  show ?thesis using generate_single_unknown_id [OF a] a by blast
qed

subsection \<open>Deletion\<close>



subsection \<open>Regeneration of a successful job\<close>

text \<open>
  Claim C5 fails on the code at this run: the job \<open>J1\<close> is in \<open>SUCCESS\<close> with the URL
  \<open>blob:u1\<close>, it is regenerated by hand and the call succeeds with \<open>blob:u2\<close>. The new URL
  replaces the old one, which is not revoked by the regeneration, and not by the later
  deletion of the job either, which revokes \<open>blob:u2\<close> only: \<open>blob:u1\<close> is never
  released.
\<close>

theorem regenerate_leaks_result:
  "map audioUrl (items one_success) = [Some ''blob:u1'']
   \<and> map audioUrl (items (run [GenerateSingle ''J1'', Settle FromSingle ''J1'' (Fulfilled ''u2'')]
                            one_success)) = [Some ''blob:u2'']
   \<and> revoked (run [GenerateSingle ''J1'', Settle FromSingle ''J1'' (Fulfilled ''u2'')]
                 one_success) = []
   \<and> revoked (run [GenerateSingle ''J1'', Settle FromSingle ''J1'' (Fulfilled ''u2''), Delete ''J1'']
                 one_success) = [''blob:u2'']
   \<and> items (run [GenerateSingle ''J1'', Settle FromSingle ''J1'' (Fulfilled ''u2''), Delete ''J1'']
               one_success) = []"
  by code_simp

subsection \<open>The pending jobs\<close>

lemma pending_update:
  assumes "\<And>i. status (f i) \<noteq> PENDING" and "\<And>i. id' (f i) = id' i"
  shows "map id' (filter (\<lambda>i. status i = PENDING) (map (\<lambda>i. if id' i = j then f i else i) xs))
         = filter (\<lambda>x. x \<noteq> j) (map id' (filter (\<lambda>i. status i = PENDING) xs))"
  using assms by (induction xs) auto

lemma update_twice:
  assumes "\<And>i. id' (f i) = id' i"
  shows "(\<lambda>i. if id' i = j then g i else i) \<circ> (\<lambda>i. if id' i = j then f i else i)
         = (\<lambda>i. if id' i = j then g (f i) else i)"
  using assms by (auto simp: fun_eq_iff)

lemma filter_absent: "j \<notin> set xs \<Longrightarrow> filter (\<lambda>x. x \<noteq> j) xs = xs"
  by (induction xs) auto




lemma pending_loadApiKey: "pending (loadApiKey key s) = pending s"
  by (simp add: pending_def loadApiKey_def split: option.splits)

lemma pending_startQueue: "pending (startQueue s) = pending s"
  by (simp add: pending_def startQueue_def setIsProcessing_def)

lemma pending_processQueue:
  "pending (processQueue s) =
     (if isProcessing s
      then (case find (\<lambda>i. status i = PENDING) (items s) of
              None \<Rightarrow> pending s
            | Some n \<Rightarrow> filter (\<lambda>x. x \<noteq> id' n) (pending s))
      else pending s)"
  by (simp add: pending_def op_defs Let_def pending_update update_twice truthy_def
      split: option.splits)

lemma pending_handleGenerateSingle:
  "pending (handleGenerateSingle jid s) = filter (\<lambda>x. x \<noteq> jid) (pending s)"
proof (cases "find (\<lambda>i. id' i = jid) (items s)")
  case None
  then have "jid \<notin> set (pending s)"
    by (auto simp: find_id_None pending_def)
  then show ?thesis using None by (simp add: handleGenerateSingle_def filter_absent)
next
  case (Some itemToProcess)
  then show ?thesis
    by (simp add: pending_def op_defs Let_def pending_update update_twice truthy_def
        split: option.splits)
qed

lemma pending_handleDelete: "pending (handleDelete jid s) = filter (\<lambda>x. x \<noteq> jid) (pending s)"
  by (simp add: pending_def items_handleDelete filter_map comp_def conj_commute)

lemma pending_settle:
  "pending (settle c jid out s) =
     (if (c, jid) \<in> set (awaiting s) then filter (\<lambda>x. x \<noteq> jid) (pending s) else pending s)"
  by (simp add: pending_def op_defs Let_def pending_update truthy_def
      split: caller.splits outcome.splits)

lemma pending_handleAddToQueue:
  "pending (handleAddToQueue uuid now form s) =
     (if truthy (trim (formText form)) then uuid # pending s else pending s)"
  by (simp add: pending_def op_defs Let_def)

subsection \<open>The calls of \<open>generateSpeech\<close>\<close>

lemma calls_processQueue:
  "\<exists>launched.
     calls (processQueue s) = calls s @ launched
     \<and> awaiting (processQueue s) = awaiting s @ launched
     \<and> launched =
         (if isProcessing s
          then (case find (\<lambda>i. status i = PENDING) (items s) of
                  None \<Rightarrow> []
                | Some n \<Rightarrow> (case userApiKey s of None \<Rightarrow> [] | Some k \<Rightarrow> [(FromQueue, id' n)]))
          else [])"
  by (simp add: op_defs Let_def split: option.splits)

lemma calls_handleGenerateSingle:
  "\<exists>launched.
     calls (handleGenerateSingle jid s) = calls s @ launched
     \<and> awaiting (handleGenerateSingle jid s) = awaiting s @ launched
     \<and> (launched = [] \<or> launched = [(FromSingle, jid)])"
  by (simp add: op_defs Let_def split: option.splits)

lemma calls_settle:
  "calls (settle c jid out s) = calls s"
  "set (awaiting (settle c jid out s)) \<subseteq> set (awaiting s)"
  using set_remove1_subset [of "(c, jid)" "awaiting s"]
  by (auto simp: op_defs Let_def split: caller.splits outcome.splits)

lemma calls_handleDelete:
  "calls (handleDelete jid s) = calls s" "awaiting (handleDelete jid s) = awaiting s"
  by (simp_all add: op_defs Let_def split: option.splits)

lemma calls_handleAddToQueue:
  "calls (handleAddToQueue uuid now form s) = calls s"
  "awaiting (handleAddToQueue uuid now form s) = awaiting s"
  by (simp_all add: op_defs Let_def)

lemma calls_loadApiKey:
  "calls (loadApiKey key s) = calls s" "awaiting (loadApiKey key s) = awaiting s"
  by (simp_all add: op_defs split: option.splits)

lemma calls_startQueue:
  "calls (startQueue s) = calls s" "awaiting (startQueue s) = awaiting s"
  by (simp_all add: op_defs)

lemma awaiting_step:
  assumes "set (awaiting s) \<subseteq> set (calls s)"
    and "\<forall>c\<in>set (awaiting s). snd c \<notin> set (pending s)"
  shows "set (awaiting (step e s)) \<subseteq> set (calls (step e s))
         \<and> (\<forall>c\<in>set (awaiting (step e s)). snd c \<notin> set (pending (step e s)))"
proof (cases e)
  case (ApiKeyLoaded key)
  then show ?thesis using assms by (simp add: calls_loadApiKey pending_loadApiKey)
next
  case (AddToQueue uuid now form)
  show ?thesis
  proof (cases "fresh uuid s")
    case True
    then have "\<forall>c\<in>set (awaiting s). snd c \<noteq> uuid"
      using assms(1) by (auto simp: fresh_def)
    then show ?thesis using assms AddToQueue True
      by (auto simp: calls_handleAddToQueue pending_handleAddToQueue)
  next
    case False
    then show ?thesis using assms AddToQueue by simp
  qed
next
  case StartQueue
  then show ?thesis using assms by (simp add: calls_startQueue pending_startQueue)
next
  case QueueEffect
  let ?s = "s\<lparr>effectDue := False\<rparr>"
  have same: "awaiting ?s = awaiting s" "calls ?s = calls s" "pending ?s = pending s"
    by (simp_all add: pending_def)
  obtain launched where l: "calls (processQueue ?s) = calls ?s @ launched"
    "awaiting (processQueue ?s) = awaiting ?s @ launched"
    "launched = (if isProcessing ?s
          then (case find (\<lambda>i. status i = PENDING) (items ?s) of
                  None \<Rightarrow> []
                | Some n \<Rightarrow> (case userApiKey ?s of None \<Rightarrow> [] | Some k \<Rightarrow> [(FromQueue, id' n)]))
          else [])"
    using calls_processQueue [of ?s] by blast
  have "set (awaiting (processQueue ?s)) \<subseteq> set (calls (processQueue ?s))"
    using assms(1) l(1,2) same by auto
  moreover have "\<forall>c\<in>set (awaiting (processQueue ?s)). snd c \<notin> set (pending (processQueue ?s))"
  proof (cases "isProcessing ?s")
    case False
    then show ?thesis using assms(2) l(2,3) same by (simp add: pending_processQueue)
  next
    case True
    show ?thesis
    proof (cases "find (\<lambda>i. status i = PENDING) (items ?s)")
      case None
      then show ?thesis using True assms(2) l(2,3) same by (simp add: pending_processQueue)
    next
      case (Some n)
      have "set launched \<subseteq> {(FromQueue, id' n)}"
        using l(3) True Some by (simp split: option.splits)
      then show ?thesis using True Some assms(2) l(2) same
        by (auto simp: pending_processQueue)
    qed
  qed
  ultimately show ?thesis using QueueEffect assms by simp
next
  case (GenerateSingle jid)
  obtain launched where l: "calls (handleGenerateSingle jid s) = calls s @ launched"
    "awaiting (handleGenerateSingle jid s) = awaiting s @ launched"
    "launched = [] \<or> launched = [(FromSingle, jid)]"
    using calls_handleGenerateSingle [of jid s] by blast
  then show ?thesis using GenerateSingle assms
    by (auto simp: pending_handleGenerateSingle)
next
  case (Delete jid)
  then show ?thesis using assms by (auto simp: calls_handleDelete pending_handleDelete)
next
  case (Settle c jid out)
  then show ?thesis using assms calls_settle(2) [of c jid out s]
    by (auto simp: calls_settle(1) pending_settle)
qed

lemma reachable_awaiting:
  "reachable s \<Longrightarrow>
     set (awaiting s) \<subseteq> set (calls s) \<and> (\<forall>c\<in>set (awaiting s). snd c \<notin> set (pending s))"
proof (induction rule: reachable.induct)
  case init
  then show ?case by (simp add: Home_init_def)
next
  case (step s e)
  then show ?case using awaiting_step [of s e] by blast
qed

lemma ids_queueEffect: "map id' (items (step QueueEffect s)) = map id' (items s)"
  by (simp add: ids_processQueue)

lemma calls_queueEffect: "set (calls s) \<subseteq> set (calls (step QueueEffect s))"
proof (cases "effectDue s")
  case True
  obtain launched
    where "calls (processQueue (s\<lparr>effectDue := False\<rparr>)) = calls (s\<lparr>effectDue := False\<rparr>) @ launched"
    using calls_processQueue [of "s\<lparr>effectDue := False\<rparr>"] by blast
  then show ?thesis using True by simp
next
  case False
  then show ?thesis by simp
qed

lemma calls_step_mono: "set (calls s) \<subseteq> set (calls (step e s))"
proof (cases e)
  case (ApiKeyLoaded key)
  then show ?thesis by (simp add: calls_loadApiKey)
next
  case (AddToQueue uuid now form)
  then show ?thesis by (simp add: calls_handleAddToQueue)
next
  case StartQueue
  then show ?thesis by (simp add: calls_startQueue)
next
  case QueueEffect
  then show ?thesis using calls_queueEffect [of s] by simp
next
  case (GenerateSingle jid)
  obtain launched where "calls (handleGenerateSingle jid s) = calls s @ launched"
    using calls_handleGenerateSingle [of jid s] by blast
  then show ?thesis using GenerateSingle by simp
next
  case (Delete jid)
  then show ?thesis by (simp add: calls_handleDelete)
next
  case (Settle c jid out)
  then show ?thesis by (simp add: calls_settle)
qed

subsection \<open>A completion that arrives after the deletion\<close>

lemma idset_handleAddToQueue:
  "set (map id' (items (handleAddToQueue uuid now form s))) \<subseteq> insert uuid (set (map id' (items s)))"
  by (auto simp: op_defs Let_def)

lemma absent_step:
  assumes "jid \<in> set (map snd (calls s))" and "jid \<notin> set (map id' (items s))"
  shows "jid \<notin> set (map id' (items (step e s)))"
proof (cases e)
  case (ApiKeyLoaded key)
  then show ?thesis using assms by (simp add: ids_loadApiKey)
next
  case (AddToQueue uuid now form)
  show ?thesis
  proof (cases "fresh uuid s")
    case True
    then have "uuid \<noteq> jid" using assms(1) by (auto simp: fresh_def)
    then show ?thesis
      using AddToQueue True assms(2) idset_handleAddToQueue [of uuid now form s] by auto
  next
    case False
    then show ?thesis using AddToQueue assms(2) by simp
  qed
next
  case StartQueue
  then show ?thesis using assms by (simp add: ids_startQueue)
next
  case QueueEffect
  show ?thesis unfolding QueueEffect ids_queueEffect by (rule assms(2))
next
  case (GenerateSingle j)
  then show ?thesis using assms by (simp add: ids_handleGenerateSingle)
next
  case (Delete j)
  then show ?thesis using assms by (auto simp: items_handleDelete)
next
  case (Settle c j out)
  then show ?thesis using assms by (simp add: ids_settle)
qed

lemma absent_run:
  assumes "jid \<in> set (map snd (calls s))" and "jid \<notin> set (map id' (items s))"
  shows "jid \<notin> set (map id' (items (run evs s)))"
  using assms
proof (induction evs arbitrary: s)
  case Nil
  then show ?case by simp
next
  case (Cons e evs)
  have "jid \<in> set (map snd (calls (step e s)))"
    using Cons.prems(1) calls_step_mono [of s e] by auto
  moreover have "jid \<notin> set (map id' (items (step e s)))"
    using Cons.prems by (rule absent_step)
  ultimately show ?case using Cons.IH by simp
qed

lemma update_absent:
  assumes "jid \<notin> set (map id' xs)"
  shows "map (\<lambda>i. if id' i = jid then f i else i) xs = xs"
  using assms by (induction xs) auto

lemma settle_absent:
  assumes "jid \<notin> set (map id' (items s))"
  shows "items (settle c jid out s) = items s"
  using assms
  by (simp add: op_defs Let_def update_absent split: caller.splits outcome.splits)

lemma called_processQueue:
  assumes "\<forall>i\<in>set (items s). status i = GENERATING \<longrightarrow> id' i \<in> set (map snd (calls s))"
  shows "\<forall>i\<in>set (items (processQueue s)).
           status i = GENERATING \<longrightarrow> id' i \<in> set (map snd (calls (processQueue s)))"
  using assms by (auto simp: op_defs Let_def truthy_def split: option.splits)

lemma called_handleGenerateSingle:
  assumes "\<forall>i\<in>set (items s). status i = GENERATING \<longrightarrow> id' i \<in> set (map snd (calls s))"
  shows "\<forall>i\<in>set (items (handleGenerateSingle jid s)).
           status i = GENERATING \<longrightarrow> id' i \<in> set (map snd (calls (handleGenerateSingle jid s)))"
  using assms by (auto simp: op_defs Let_def truthy_def split: option.splits)

lemma called_settle:
  assumes "\<forall>i\<in>set (items s). status i = GENERATING \<longrightarrow> id' i \<in> set (map snd (calls s))"
  shows "\<forall>i\<in>set (items (settle c jid out s)).
           status i = GENERATING \<longrightarrow> id' i \<in> set (map snd (calls (settle c jid out s)))"
  using assms by (auto simp: op_defs Let_def split: caller.splits outcome.splits)

lemma called_step:
  assumes "\<forall>i\<in>set (items s). status i = GENERATING \<longrightarrow> id' i \<in> set (map snd (calls s))"
  shows "\<forall>i\<in>set (items (step e s)).
           status i = GENERATING \<longrightarrow> id' i \<in> set (map snd (calls (step e s)))"
proof (cases e)
  case (ApiKeyLoaded key)
  then show ?thesis using assms by (simp add: loadApiKey_def split: option.splits)
next
  case (AddToQueue uuid now form)
  then show ?thesis using assms by (auto simp: op_defs Let_def)
next
  case StartQueue
  then show ?thesis using assms by (simp add: op_defs)
next
  case QueueEffect
  have "\<forall>i\<in>set (items (s\<lparr>effectDue := False\<rparr>)).
          status i = GENERATING \<longrightarrow> id' i \<in> set (map snd (calls (s\<lparr>effectDue := False\<rparr>)))"
    using assms by simp
  then show ?thesis using QueueEffect assms called_processQueue [of "s\<lparr>effectDue := False\<rparr>"]
    by simp
next
  case (GenerateSingle jid)
  then show ?thesis using called_handleGenerateSingle [OF assms] by simp
next
  case (Delete jid)
  then show ?thesis using assms by (simp add: items_handleDelete calls_handleDelete)
next
  case (Settle c jid out)
  then show ?thesis using called_settle [OF assms] by simp
qed

lemma reachable_called:
  "reachable s \<Longrightarrow>
     \<forall>i\<in>set (items s). status i = GENERATING \<longrightarrow> id' i \<in> set (map snd (calls s))"
proof (induction rule: reachable.induct)
  case init
  then show ?case by (simp add: Home_init_def)
next
  case (step s e)
  from step.IH show ?case by (rule called_step)
qed

text \<open>
  Claim C9: when a job of a reachable state is deleted while \<open>GENERATING\<close>, then
  whatever happens to the page afterwards the job does not come back to the list, and
  when its call settles, fulfilled or rejected, the job list stays exactly as it is:
  the updater of the completion maps over the list, in which no item has that id.
\<close>

theorem late_completion_ignored:
  assumes "reachable s" and "item \<in> set (items s)" and "status item = GENERATING"
  shows "id' item \<notin> set (map id' (items (run evs (step (Delete (id' item)) s))))
         \<and> items (step (Settle c (id' item) out) (run evs (step (Delete (id' item)) s)))
             = items (run evs (step (Delete (id' item)) s))"
proof -
  let ?s = "step (Delete (id' item)) s"
  have "id' item \<in> set (map snd (calls s))"
    using reachable_called [OF assms(1)] assms(2,3) by blast
  then have a: "id' item \<in> set (map snd (calls ?s))"
    by (simp add: calls_handleDelete)
  have b: "id' item \<notin> set (map id' (items ?s))"
    by (auto simp: items_handleDelete)
  show ?thesis
    using absent_run [OF a b] settle_absent [of "id' item" "run evs ?s" c out] by simp
qed

text \<open>
  \<open>J1\<close> is deleted in flight; the queue is started and picks \<open>J2\<close>; then the call for
  \<open>J1\<close> is fulfilled: the list still holds \<open>J2\<close> alone, unchanged.
\<close>

theorem late_completion_ignored_witness:
  "reachable in_flight
   \<and> last (items in_flight) \<in> set (items in_flight)
   \<and> status (last (items in_flight)) = GENERATING
   \<and> ''J1'' \<notin> set (map id' (items (run [StartQueue, QueueEffect] (step (Delete ''J1'') in_flight))))
   \<and> items (step (Settle FromSingle ''J1'' (Fulfilled ''u1''))
               (run [StartQueue, QueueEffect] (step (Delete ''J1'') in_flight)))
       = items (run [StartQueue, QueueEffect] (step (Delete ''J1'') in_flight))
   \<and> map id' (items (run [StartQueue, QueueEffect] (step (Delete ''J1'') in_flight))) = [''J2'']"
proof -
  have r: "reachable in_flight"
    unfolding in_flight_def by (rule reachable_run [OF reachable.init])
  have m: "last (items in_flight) \<in> set (items in_flight)" by code_simp
  have g: "status (last (items in_flight)) = GENERATING" by code_simp
  have i: "id' (last (items in_flight)) = ''J1''" by code_simp
  have c: "map id' (items (run [StartQueue, QueueEffect] (step (Delete ''J1'') in_flight))) = [''J2'']"
    by code_simp
  show ?thesis
    using late_completion_ignored [OF r m g, of "[StartQueue, QueueEffect]" FromSingle "Fulfilled ''u1''"]
      r m g c unfolding i by blast
qed

subsection \<open>A call that fails\<close>

lemma items_settle_rejected:
  assumes "(FromQueue, jid) \<in> set (awaiting s)"
  shows "items (settle FromQueue jid (Rejected message) s)
         = map (\<lambda>i. if id' i = jid
                     then i\<lparr>status := ERROR,
                            error := Some (if truthy message then message else ''Failed to generate'')\<rparr>
                     else i) (items s)"
  using assms by (simp add: op_defs Let_def)

text \<open>
  Claim C7: when a call that \<open>processQueue\<close> awaits is rejected, with any message, the
  \<open>catch\<close> block takes it: the job of the call gets the status \<open>ERROR\<close> and a non-empty
  \<open>error\<close> and keeps its other fields, every other job of the list is unchanged, the
  processing flag is unchanged and the pending jobs are the same as before, so that the
  queue effect goes on with them.
\<close>

theorem capability_failure_recorded:
  assumes "reachable s" and "(FromQueue, jid) \<in> set (awaiting s)"
  shows "list_all2 (\<lambda>i i'. if id' i = jid
                            then i' = i\<lparr>status := ERROR, error := error i'\<rparr> \<and> present (error i')
                            else i' = i)
           (items s) (items (step (Settle FromQueue jid (Rejected message)) s))
         \<and> isProcessing (step (Settle FromQueue jid (Rejected message)) s) = isProcessing s
         \<and> pending (step (Settle FromQueue jid (Rejected message)) s) = pending s"
proof -
  have "jid \<notin> set (pending s)"
    using reachable_awaiting [OF assms(1)] assms(2) by auto
  then have "pending (step (Settle FromQueue jid (Rejected message)) s) = pending s"
    using assms(2) by (simp add: pending_settle filter_absent)
  moreover have "isProcessing (step (Settle FromQueue jid (Rejected message)) s) = isProcessing s"
    by (simp add: op_defs Let_def)
  moreover have "list_all2 (\<lambda>i i'. if id' i = jid
                            then i' = i\<lparr>status := ERROR, error := error i'\<rparr> \<and> present (error i')
                            else i' = i)
           (items s) (items (step (Settle FromQueue jid (Rejected message)) s))"
    by (simp add: items_settle_rejected [OF assms(2)] list_all2_map2 list_all2_same
        present_def truthy_def)
  ultimately show ?thesis by blast
qed

text \<open>
  The call for \<open>J3\<close> is rejected with the message that \<open>generateSpeech\<close> throws for a
  quota error (\<open>RESOURCE_EXHAUSTED\<close>): \<open>J3\<close> is in \<open>ERROR\<close>, \<open>J2\<close> and \<open>J1\<close> are still
  pending.
\<close>

theorem capability_failure_recorded_witness:
  "reachable (step QueueEffect queue_started)
   \<and> (FromQueue, ''J3'') \<in> set (awaiting (step QueueEffect queue_started))
   \<and> includes' (generateSpeech_rethrow ''gemini-2.5-flash-preview-tts'' ''429 RESOURCE_EXHAUSTED'')
        ''RESOURCE_EXHAUSTED''
   \<and> list_all2 (\<lambda>i i'. if id' i = ''J3''
                         then i' = i\<lparr>status := ERROR, error := error i'\<rparr> \<and> present (error i')
                         else i' = i)
        (items (step QueueEffect queue_started))
        (items (step (Settle FromQueue ''J3''
                        (Rejected (generateSpeech_rethrow ''gemini-2.5-flash-preview-tts''
                                     ''429 RESOURCE_EXHAUSTED'')))
                  (step QueueEffect queue_started)))
   \<and> pending (step (Settle FromQueue ''J3''
                       (Rejected (generateSpeech_rethrow ''gemini-2.5-flash-preview-tts''
                                    ''429 RESOURCE_EXHAUSTED'')))
                 (step QueueEffect queue_started)) = [''J2'', ''J1'']
   \<and> map status (items (step (Settle FromQueue ''J3''
                       (Rejected (generateSpeech_rethrow ''gemini-2.5-flash-preview-tts''
                                    ''429 RESOURCE_EXHAUSTED'')))
                 (step QueueEffect queue_started))) = [ERROR, PENDING, PENDING]"
proof -
  let ?s = "step QueueEffect queue_started"
  let ?m = "generateSpeech_rethrow ''gemini-2.5-flash-preview-tts'' ''429 RESOURCE_EXHAUSTED''"
  have "reachable queue_started"
    unfolding queue_started_def by (rule reachable_run [OF reachable.init])
  then have r: "reachable ?s" by (rule reachable.step)
  have a: "(FromQueue, ''J3'') \<in> set (awaiting ?s)" by code_simp
  have b: "includes' ?m ''RESOURCE_EXHAUSTED''" by code_simp
  have p: "pending ?s = [''J2'', ''J1'']" by code_simp
  have st: "map status (items (step (Settle FromQueue ''J3'' (Rejected ?m)) ?s))
            = [ERROR, PENDING, PENDING]" by code_simp
  show ?thesis
    using capability_failure_recorded [OF r a, of ?m] r a b st unfolding p by blast
qed

subsection \<open>The order in which the queue drains\<close>












subsection \<open>More than one call in flight\<close>

text \<open>
  Claim C3 fails on the code at this run: the queue is started on three pending jobs.
  The effect runs, marks \<open>J3\<close> as \<open>GENERATING\<close> and awaits its call. This \<open>setItems\<close>
  changes \<open>items\<close>, a dependency of the effect, so the effect runs again while the first
  call is in flight, and does the same for \<open>J2\<close>: two jobs are \<open>GENERATING\<close> and two
  calls are awaited at the same time.
\<close>

theorem drain_overlaps:
  "generating (run [QueueEffect, QueueEffect] queue_started) = [''J3'', ''J2'']
   \<and> awaiting (run [QueueEffect, QueueEffect] queue_started) = [(FromQueue, ''J3''), (FromQueue, ''J2'')]"
  by code_simp

end
